theory Spec2Isabelle
  imports Complex_Main "HOL-Library.Sublist" "HOL-Library.AList"
begin

section \<open>Configuration\<close>

text \<open>
  The module-level constants of \<^verbatim>\<open>main.py\<close> (the same values stand in \<^verbatim>\<open>app.py\<close>).
  Timestamps (\<^verbatim>\<open>datetime.now()\<close>) are integers counting microseconds, the resolution of
  \<^verbatim>\<open>datetime\<close>; \<^verbatim>\<open>timedelta(hours=CLEANUP_AFTER_HOURS)\<close> is then
  \<open>CLEANUP_AFTER_HOURS * 3600000000\<close>.
\<close>

definition MAX_QUEUE_SIZE :: nat where
  "MAX_QUEUE_SIZE = 5"

definition CLEANUP_AFTER_HOURS :: int where
  "CLEANUP_AFTER_HOURS = 2"

definition MAX_QUALITY :: int where
  "MAX_QUALITY = 720"

type_synonym time = int

definition retention :: int where
  "retention = CLEANUP_AFTER_HOURS * 3600000000"

section \<open>Strings\<close>

text \<open>
  A Python \<^verbatim>\<open>str\<close> is a \<^typ>\<open>string\<close>. The Cyrillic literals of the source are
  written as their UTF-8 bytes. \<^verbatim>\<open>str.lower()\<close> is modelled on ASCII text, where it maps
  \<^verbatim>\<open>A\<close>..\<^verbatim>\<open>Z\<close> to \<^verbatim>\<open>a\<close>..\<^verbatim>\<open>z\<close> and leaves every other character alone; bytes from
  0x80 on are left alone too, so the model says nothing about the Unicode case mapping
  of a URL outside ASCII.
\<close>

definition digit_char :: "nat \<Rightarrow> char" where
  "digit_char d = char_of (48 + d)"

fun str_nat :: "nat \<Rightarrow> string" where
  "str_nat n = (if n < 10 then [digit_char n] else str_nat (n div 10) @ [digit_char (n mod 10)])"

text \<open>\<^verbatim>\<open>str(i)\<close>, the text of \<^verbatim>\<open>{i}\<close> in an f-string, for an integer.\<close>

definition str_int :: "int \<Rightarrow> string" where
  "str_int i = (if i < 0 then CHR ''-'' # str_nat (nat (- i)) else str_nat (nat i))"

text \<open>\<^verbatim>\<open>{i:02d}\<close>: zero padding to two characters.\<close>

definition pad2 :: "int \<Rightarrow> string" where
  "pad2 i = (let s = str_int i in replicate (2 - length s) (CHR ''0'') @ s)"

definition lower_char :: "char \<Rightarrow> char" where
  "lower_char c =
     (if 65 \<le> (of_char c :: nat) \<and> (of_char c :: nat) \<le> 90
      then char_of (of_char c + 32 :: nat) else c)"

definition lower :: "string \<Rightarrow> string" where
  "lower s = map lower_char s"

text \<open>\<^verbatim>\<open>p in s\<close> for strings: \<open>p\<close> occurs in \<open>s\<close> at some offset.\<close>

fun starts_with :: "string \<Rightarrow> string \<Rightarrow> bool" where
  "starts_with s [] = True"
| "starts_with [] (c # p) = False"
| "starts_with (d # s) (c # p) = (d = c \<and> starts_with s p)"

fun str_in :: "string \<Rightarrow> string \<Rightarrow> bool" where
  "str_in p [] = (p = [])"
| "str_in p (d # s) = (starts_with (d # s) p \<or> str_in p s)"

text \<open>The Russian word for "unknown" (U+041D U+0435 U+0438 U+0437 U+0432 U+0435 U+0441 U+0442 U+043D U+043E).\<close>

definition label_unknown :: string where
  "label_unknown =
     [CHR 0xD0, CHR 0x9D, CHR 0xD0, CHR 0xB5, CHR 0xD0, CHR 0xB8, CHR 0xD0, CHR 0xB7,
      CHR 0xD0, CHR 0xB2, CHR 0xD0, CHR 0xB5, CHR 0xD1, CHR 0x81, CHR 0xD1, CHR 0x82,
      CHR 0xD0, CHR 0xBD, CHR 0xD0, CHR 0xBE]"

text \<open>
  The size units of \<^verbatim>\<open>format_size\<close>: the Russian abbreviations of bytes, KB, MB, GB and
  TB (U+0411; U+041A U+0411; U+041C U+0411; U+0413 U+0411; U+0422 U+0411).
\<close>

definition unit_B :: string where
  "unit_B = [CHR 0xD0, CHR 0x91]"

definition unit_KB :: string where
  "unit_KB = [CHR 0xD0, CHR 0x9A, CHR 0xD0, CHR 0x91]"

definition unit_MB :: string where
  "unit_MB = [CHR 0xD0, CHR 0x9C, CHR 0xD0, CHR 0x91]"

definition unit_GB :: string where
  "unit_GB = [CHR 0xD0, CHR 0x93, CHR 0xD0, CHR 0x91]"

definition unit_TB :: string where
  "unit_TB = [CHR 0xD0, CHR 0xA2, CHR 0xD0, CHR 0x91]"

text \<open>The default title (U+0412 U+0438 U+0434 U+0435 U+043E, "video").\<close>

definition default_title :: string where
  "default_title =
     [CHR 0xD0, CHR 0x92, CHR 0xD0, CHR 0xB8, CHR 0xD0, CHR 0xB4, CHR 0xD0, CHR 0xB5,
      CHR 0xD0, CHR 0xBE]"

text \<open>The size shown while no file has been found ("being determined").\<close>

definition size_pending :: string where
  "size_pending =
     [CHR 0xD0, CHR 0xA3, CHR 0xD1, CHR 0x82, CHR 0xD0, CHR 0xBE, CHR 0xD1, CHR 0x87,
      CHR 0xD0, CHR 0xBD, CHR 0xD1, CHR 0x8F, CHR 0xD0, CHR 0xB5, CHR 0xD1, CHR 0x82,
      CHR 0xD1, CHR 0x81, CHR 0xD1, CHR 0x8F]"

text \<open>
  The message of the exception raised for an unsupported platform
  ("Unsupported platform. Supported: YouTube, VK, Instagram", in Russian).
\<close>

definition unsupported_platform_msg :: string where
  "unsupported_platform_msg =
     [CHR 0xD0, CHR 0x9D, CHR 0xD0, CHR 0xB5, CHR 0xD0, CHR 0xBF, CHR 0xD0, CHR 0xBE,
      CHR 0xD0, CHR 0xB4, CHR 0xD0, CHR 0xB4, CHR 0xD0, CHR 0xB5, CHR 0xD1, CHR 0x80,
      CHR 0xD0, CHR 0xB6, CHR 0xD0, CHR 0xB8, CHR 0xD0, CHR 0xB2, CHR 0xD0, CHR 0xB0,
      CHR 0xD0, CHR 0xB5, CHR 0xD0, CHR 0xBC, CHR 0xD0, CHR 0xB0, CHR 0xD1, CHR 0x8F,
      CHR 0x20, CHR 0xD0, CHR 0xBF, CHR 0xD0, CHR 0xBB, CHR 0xD0, CHR 0xB0, CHR 0xD1,
      CHR 0x82, CHR 0xD1, CHR 0x84, CHR 0xD0, CHR 0xBE, CHR 0xD1, CHR 0x80, CHR 0xD0,
      CHR 0xBC, CHR 0xD0, CHR 0xB0, CHR 0x2E, CHR 0x20, CHR 0xD0, CHR 0x9F, CHR 0xD0,
      CHR 0xBE, CHR 0xD0, CHR 0xB4, CHR 0xD0, CHR 0xB4, CHR 0xD0, CHR 0xB5, CHR 0xD1,
      CHR 0x80, CHR 0xD0, CHR 0xB6, CHR 0xD0, CHR 0xB8, CHR 0xD0, CHR 0xB2, CHR 0xD0,
      CHR 0xB0, CHR 0xD1, CHR 0x8E, CHR 0xD1, CHR 0x82, CHR 0xD1, CHR 0x81, CHR 0xD1,
      CHR 0x8F, CHR 0x3A, CHR 0x20] @ ''YouTube, VK, Instagram''"

section \<open>Formatting\<close>

text \<open>
  \<^verbatim>\<open>format_duration(seconds)\<close>. \<^verbatim>\<open>not seconds\<close> holds for 0 (and for \<^verbatim>\<open>None\<close>, which the
  caller's \<^verbatim>\<open>info.get('duration', 0)\<close> passes on; the model's caller turns it into 0).
  Python's \<^verbatim>\<open>//\<close> and \<^verbatim>\<open>%\<close> round towards minus infinity, as \<open>div\<close> and \<open>mod\<close> on \<^typ>\<open>int\<close> do.
\<close>

definition format_duration :: "int \<Rightarrow> string" where
  "format_duration seconds =
     (if seconds = 0 then label_unknown
      else
        let hours = seconds div 3600;
            minutes = (seconds mod 3600) div 60;
            secs = seconds mod 60
        in if hours > 0 then str_int hours @ '':'' @ pad2 minutes @ '':'' @ pad2 secs
           else str_int minutes @ '':'' @ pad2 secs)"

text \<open>
  \<^verbatim>\<open>f"{x:.1f}"\<close> for a float \<open>x \<ge> 0\<close>: the decimal with one digit after the point that is
  nearest to the float's exact value, a tie going to the even digit.
\<close>

definition round_half_even :: "rat \<Rightarrow> int" where
  "round_half_even y =
     (let f = \<lfloor>y\<rfloor>; d = y - of_int f
      in if d < 1 / 2 then f else if 1 / 2 < d then f + 1 else if even f then f else f + 1)"

definition fixed1 :: "rat \<Rightarrow> string" where
  "fixed1 x = (let t = round_half_even (x * 10) in str_int (t div 10) @ ''.'' @ str_int (t mod 10))"

text \<open>
  \<^verbatim>\<open>format_size(bytes_size)\<close>: the loop over the four units, then the terabyte line. The
  file size is a natural number (\<^verbatim>\<open>st_size\<close>); the float the loop divides is a rational
  number here. Below \<open>2 ^ 53\<close> bytes every value of the loop is a double exactly (a
  division by 1024 only changes the exponent), so the rational is the float.
\<close>

fun format_size_loop :: "rat \<Rightarrow> string list \<Rightarrow> string" where
  "format_size_loop bytes_size [] = fixed1 bytes_size @ '' '' @ unit_TB"
| "format_size_loop bytes_size (u # us) =
     (if bytes_size < 1024 then fixed1 bytes_size @ '' '' @ u
      else format_size_loop (bytes_size / 1024) us)"

definition format_size :: "nat \<Rightarrow> string" where
  "format_size bytes_size = format_size_loop (of_nat bytes_size) [unit_B, unit_KB, unit_MB, unit_GB]"

section \<open>Platform detection\<close>

text \<open>The strings \<^verbatim>\<open>'youtube'\<close>, \<^verbatim>\<open>'vk'\<close>, \<^verbatim>\<open>'instagram'\<close> and \<^verbatim>\<open>'unknown'\<close>.\<close>

datatype platform = Youtube | Vk | Instagram | Unknown

definition detect_platform :: "string \<Rightarrow> platform" where
  "detect_platform url =
     (let url_lower = lower url
      in if str_in ''youtube.com'' url_lower \<or> str_in ''youtu.be'' url_lower then Youtube
         else if str_in ''vk.com'' url_lower \<or> str_in ''vkvideo.ru'' url_lower then Vk
         else if str_in ''instagram.com'' url_lower then Instagram
         else Unknown)"

section \<open>Tasks and the scheduler's state\<close>

text \<open>
  A task is the dictionary built by \<^verbatim>\<open>create_download_task\<close>; the keys that later code
  adds (\<^verbatim>\<open>platform\<close>, \<^verbatim>\<open>file_path\<close>, \<^verbatim>\<open>video_info\<close>, \<^verbatim>\<open>completed_at\<close>, \<^verbatim>\<open>error\<close>) are
  optional fields, \<open>None\<close> while the key is absent.
\<close>

type_synonym tid = string

datatype status = Queued | Processing | Completed | Error

record video_info =
  vi_title :: string
  vi_duration :: string
  vi_quality :: string
  vi_size :: string

record task =
  task_id :: tid
  url :: string
  quality :: int
  status :: status
  created_at :: time
  progress :: nat
  platform :: "platform option"
  file_path :: "string option"
  video_info :: "video_info option"
  completed_at :: "time option"
  error :: "string option"

text \<open>
  The globals \<^verbatim>\<open>tasks\<close> (a dictionary, which keeps insertion order: an association
  list), \<^verbatim>\<open>queue\<close> and \<^verbatim>\<open>processing_task_id\<close>, and what the code reaches outside them:
  \<^item> \<open>spawned\<close>: the \<^verbatim>\<open>download_video\<close> coroutines that \<^verbatim>\<open>asyncio.create_task\<close> has
    scheduled and the event loop has not started yet, with their arguments;
  \<^item> \<open>running\<close>: the coroutines suspended in \<^verbatim>\<open>await loop.run_in_executor(...)\<close>, one
    per Fetcher call in flight;
  \<^item> \<open>dirs\<close>: the task ids whose directory \<^verbatim>\<open>DOWNLOAD_DIR / task_id\<close> exists.
\<close>

record state =
  tasks :: "(tid \<times> task) list"
  queue :: "tid list"
  processing_task_id :: "tid option"
  spawned :: "(tid \<times> string \<times> int) list"
  running :: "(tid \<times> string \<times> int) list"
  dirs :: "tid set"

definition init_state :: state where
  "init_state = \<lparr>tasks = [], queue = [], processing_task_id = None, spawned = [], running = [],
     dirs = {}\<rparr>"

text \<open>\<^verbatim>\<open>tasks[task_id][key] = value\<close> for a task that is in the store.\<close>

definition set_task :: "tid \<Rightarrow> (task \<Rightarrow> task) \<Rightarrow> state \<Rightarrow> state" where
  "set_task k f s = s\<lparr>tasks := AList.map_entry k f (tasks s)\<rparr>"

section \<open>The scheduler\<close>

text \<open>
  \<^verbatim>\<open>process_next_in_queue\<close>. It holds no \<^verbatim>\<open>await\<close>, so it runs to its end without
  yielding to the event loop. \<^verbatim>\<open>asyncio.create_task\<close> only schedules the coroutine:
  nothing of \<^verbatim>\<open>download_video\<close> has run when the function returns.
\<close>

definition process_next_in_queue :: "state \<Rightarrow> state" where
  "process_next_in_queue s =
     (if processing_task_id s = None \<and> queue s \<noteq> [] then
        let next_task_id = hd (queue s);
            s1 = s\<lparr>queue := tl (queue s)\<rparr>
        in case map_of (tasks s1) next_task_id of
             Some task \<Rightarrow>
               if status task = Queued
               then s1\<lparr>spawned := spawned s1 @ [(next_task_id, url task, quality task)]\<rparr>
               else s1
           | None \<Rightarrow> s1
      else s)"

text \<open>
  \<^verbatim>\<open>create_download_task\<close> of \<^verbatim>\<open>main.py\<close>. The id that \<^verbatim>\<open>uuid.uuid4()\<close> returns and the
  clock are inputs. The handler of \<^verbatim>\<open>app.py\<close> runs the same statements after it has parsed
  the request (and answered 400 for a missing URL).
\<close>

datatype api_error = QueueFull | NotFound | InternalError

definition new_task :: "tid \<Rightarrow> string \<Rightarrow> int \<Rightarrow> time \<Rightarrow> task" where
  "new_task k u q now =
     \<lparr>task_id = k, url = u, quality = q, status = Queued, created_at = now, progress = 0,
      platform = None, file_path = None, video_info = None, completed_at = None, error = None\<rparr>"

definition create_download_task ::
  "state \<Rightarrow> tid \<Rightarrow> time \<Rightarrow> string \<Rightarrow> int \<Rightarrow> (api_error + tid \<times> nat) \<times> state" where
  "create_download_task s new_id now u q =
     (if MAX_QUEUE_SIZE \<le> length (queue s) then (Inl QueueFull, s)
      else
        let s1 = s\<lparr>tasks := AList.update new_id (new_task new_id u q now) (tasks s)\<rparr>;
            s2 = s1\<lparr>queue := queue s1 @ [new_id]\<rparr>;
            queue_position = length (queue s2);
            s3 = (if processing_task_id s2 = None then process_next_in_queue s2 else s2)
        in (Inr (new_id, queue_position), s3))"

text \<open>
  \<^verbatim>\<open>download_video\<close> suspends once, at \<^verbatim>\<open>await loop.run_in_executor(...)\<close>. The model has
  the two runs of the coroutine: from its start to the suspension, and from the Fetcher's
  answer to its end. An exception raised anywhere in the \<^verbatim>\<open>try\<close> block runs the handler and
  then the \<^verbatim>\<open>finally\<close> block.

  The handler writes \<^verbatim>\<open>status\<close> and \<^verbatim>\<open>error\<close>. When the task has left the store meanwhile,
  its first assignment raises \<^verbatim>\<open>KeyError\<close> and nothing is written; \<open>map_entry\<close> on a missing
  key changes nothing either.
\<close>

definition on_exception :: "tid \<Rightarrow> string \<Rightarrow> state \<Rightarrow> state" where
  "on_exception k msg s = set_task k (\<lambda>t. t\<lparr>status := Error, error := Some msg\<rparr>) s"

definition download_video_finally :: "state \<Rightarrow> state" where
  "download_video_finally s = process_next_in_queue (s\<lparr>processing_task_id := None\<rparr>)"

text \<open>
  From the start to the suspension. \<open>mkdir_error\<close> is the message of the exception
  that \<^verbatim>\<open>task_dir.mkdir(exist_ok=True)\<close> raises, if it raises. The Fetcher is called
  exactly when the coroutine reaches the last line: the entry added to \<open>running\<close>.
\<close>

definition download_video_start :: "state \<Rightarrow> tid \<Rightarrow> string \<Rightarrow> int \<Rightarrow> string option \<Rightarrow> state" where
  "download_video_start s k u q mkdir_error =
     (case map_of (tasks s) k of
        None \<Rightarrow> download_video_finally s
      | Some _ \<Rightarrow>
          let s1 = set_task k (\<lambda>t. t\<lparr>status := Processing\<rparr>) s;
              s2 = set_task k (\<lambda>t. t\<lparr>progress := 10\<rparr>) s1;
              s3 = s2\<lparr>processing_task_id := Some k\<rparr>;
              p = detect_platform u
          in if p = Unknown
             then download_video_finally (on_exception k unsupported_platform_msg s3)
             else
               let s4 = set_task k (\<lambda>t. t\<lparr>platform := Some p\<rparr>) s3;
                   s5 = set_task k (\<lambda>t. t\<lparr>progress := 20\<rparr>) s4
               in case mkdir_error of
                    Some msg \<Rightarrow> download_video_finally (on_exception k msg s5)
                  | None \<Rightarrow>
                      let s6 = s5\<lparr>dirs := insert k (dirs s5)\<rparr>;
                          s7 = set_task k (\<lambda>t. t\<lparr>progress := 30\<rparr>) s6
                      in s7\<lparr>running := running s7 @ [(k, u, q)]\<rparr>)"

text \<open>
  What the Fetcher answers: an exception with its message, or the \<^verbatim>\<open>info\<close> dictionary, of
  which the code reads \<^verbatim>\<open>title\<close> and \<^verbatim>\<open>duration\<close> (\<open>None\<close>: the key is missing).
\<close>

record info =
  info_title :: "string option"
  info_duration :: "int option"

datatype fetch_outcome = Raised string | Returned info

text \<open>
  From the Fetcher's answer to the end. \<open>files\<close> is what \<^verbatim>\<open>task_dir.glob('*')\<close> lists,
  each path with its \<^verbatim>\<open>st_size\<close>.
\<close>

definition download_video_resume ::
  "state \<Rightarrow> tid \<Rightarrow> string \<Rightarrow> int \<Rightarrow> fetch_outcome \<Rightarrow> (string \<times> nat) list \<Rightarrow> time \<Rightarrow> state" where
  "download_video_resume s k u q outcome files now =
     (case outcome of
        Raised msg \<Rightarrow> download_video_finally (on_exception k msg s)
      | Returned fetched \<Rightarrow>
          (case map_of (tasks s) k of
             None \<Rightarrow> download_video_finally s
           | Some _ \<Rightarrow>
               let s1 = set_task k (\<lambda>t. t\<lparr>progress := 90\<rparr>) s;
                   vi = \<lparr>vi_title = (case info_title fetched of Some t \<Rightarrow> t | None \<Rightarrow> default_title),
                         vi_duration =
                           format_duration (case info_duration fetched of Some d \<Rightarrow> d | None \<Rightarrow> 0),
                         vi_quality = str_int (min q MAX_QUALITY) @ ''p'',
                         vi_size = size_pending\<rparr>;
                   vi' = (case files of [] \<Rightarrow> vi | f # _ \<Rightarrow> vi\<lparr>vi_size := format_size (snd f)\<rparr>);
                   s2 = (case files of [] \<Rightarrow> s1
                         | f # _ \<Rightarrow> set_task k (\<lambda>t. t\<lparr>file_path := Some (fst f)\<rparr>) s1);
                   s3 = set_task k (\<lambda>t. t\<lparr>video_info := Some vi'\<rparr>) s2;
                   s4 = set_task k (\<lambda>t. t\<lparr>status := Completed\<rparr>) s3;
                   s5 = set_task k (\<lambda>t. t\<lparr>progress := 100\<rparr>) s4;
                   s6 = set_task k (\<lambda>t. t\<lparr>completed_at := Some now\<rparr>) s5
               in download_video_finally s6))"

section \<open>The reaper\<close>

text \<open>
  One cycle of \<^verbatim>\<open>cleanup_old_files\<close>: the body of its \<^verbatim>\<open>try\<close>. \<open>rm_fails k\<close> says that
  \<^verbatim>\<open>shutil.rmtree\<close> raises on the directory of task \<open>k\<close> (the directory then stays). The
  scan returns the directories left and \<^verbatim>\<open>tasks_to_remove\<close>, or \<open>None\<close> when
  \<^verbatim>\<open>rmtree\<close> raised: the exception leaves the \<^verbatim>\<open>for\<close> loop and the \<^verbatim>\<open>try\<close> block, and the
  handler only prints it.
\<close>

fun cleanup_scan ::
  "(tid \<Rightarrow> bool) \<Rightarrow> time \<Rightarrow> (tid \<times> task) list \<Rightarrow> tid set \<Rightarrow> tid list \<Rightarrow> tid set \<times> tid list option" where
  "cleanup_scan rm_fails current_time [] ds tasks_to_remove = (ds, Some tasks_to_remove)"
| "cleanup_scan rm_fails current_time (kt # rest) ds tasks_to_remove =
     (case completed_at (snd kt) of
        None \<Rightarrow> cleanup_scan rm_fails current_time rest ds tasks_to_remove
      | Some c \<Rightarrow>
          if retention < current_time - c then
            if fst kt \<in> ds then
              if rm_fails (fst kt) then (ds, None)
              else cleanup_scan rm_fails current_time rest (ds - {fst kt})
                     (tasks_to_remove @ [fst kt])
            else cleanup_scan rm_fails current_time rest ds (tasks_to_remove @ [fst kt])
          else cleanup_scan rm_fails current_time rest ds tasks_to_remove)"

definition cleanup_cycle :: "state \<Rightarrow> time \<Rightarrow> (tid \<Rightarrow> bool) \<Rightarrow> state" where
  "cleanup_cycle s current_time rm_fails =
     (case cleanup_scan rm_fails current_time (tasks s) (dirs s) [] of
        (ds, None) \<Rightarrow> s\<lparr>dirs := ds\<rparr>
      | (ds, Some tasks_to_remove) \<Rightarrow>
          s\<lparr>dirs := ds, tasks := foldl (\<lambda>al k. AList.delete k al) (tasks s) tasks_to_remove\<rparr>)"

text \<open>
  The test of the scan on one task: \<^verbatim>\<open>completed_at\<close> is set and older than the retention
  window.
\<close>

definition expired :: "time \<Rightarrow> task \<Rightarrow> bool" where
  "expired current_time t =
     (case completed_at t of None \<Rightarrow> False | Some c \<Rightarrow> retention < current_time - c)"

section \<open>Status and cancellation\<close>

text \<open>\<^verbatim>\<open>list.index\<close>: the offset of the first occurrence, \<open>None\<close> where Python raises.\<close>

fun list_index :: "'a list \<Rightarrow> 'a \<Rightarrow> nat option" where
  "list_index [] x = None"
| "list_index (y # ys) x = (if y = x then Some 0 else map_option Suc (list_index ys x))"

text \<open>The default of \<^verbatim>\<open>task.get('error', ...)\<close> ("unknown error", in Russian).\<close>

definition unknown_error_msg :: string where
  "unknown_error_msg =
     [CHR 0xD0, CHR 0x9D, CHR 0xD0, CHR 0xB5, CHR 0xD0, CHR 0xB8, CHR 0xD0, CHR 0xB7,
      CHR 0xD0, CHR 0xB2, CHR 0xD0, CHR 0xB5, CHR 0xD1, CHR 0x81, CHR 0xD1, CHR 0x82,
      CHR 0xD0, CHR 0xBD, CHR 0xD0, CHR 0xB0, CHR 0xD1, CHR 0x8F, CHR 0x20, CHR 0xD0,
      CHR 0xBE, CHR 0xD1, CHR 0x88, CHR 0xD0, CHR 0xB8, CHR 0xD0, CHR 0xB1, CHR 0xD0,
      CHR 0xBA, CHR 0xD0, CHR 0xB0]"

text \<open>
  The response of \<^verbatim>\<open>get_task_status\<close>; an optional field is a key that the response may
  lack. For a completed task \<open>None\<close> in \<open>resp_video_info\<close> is the empty dictionary that
  \<^verbatim>\<open>task.get('video_info', {})\<close> defaults to.
\<close>

record status_response =
  resp_task_id :: tid
  resp_status :: status
  resp_progress :: nat
  queue_position :: "nat option"
  resp_video_info :: "video_info option"
  resp_error :: "string option"

definition get_task_status :: "state \<Rightarrow> tid \<Rightarrow> api_error + status_response" where
  "get_task_status s k =
     (case map_of (tasks s) k of
        None \<Rightarrow> Inl NotFound
      | Some task \<Rightarrow>
          Inr \<lparr>resp_task_id = k,
               resp_status = status task,
               resp_progress = progress task,
               queue_position =
                 (if status task = Queued \<and> k \<in> set (queue s)
                  then map_option (\<lambda>i. i + 1) (list_index (queue s) k) else None),
               resp_video_info = (if status task = Completed then video_info task else None),
               resp_error =
                 (if status task = Error
                  then Some (case error task of Some e \<Rightarrow> e | None \<Rightarrow> unknown_error_msg)
                  else None)\<rparr>)"

text \<open>
  \<^verbatim>\<open>cancel_task\<close> (\<^verbatim>\<open>main.py\<close> only). An exception of \<^verbatim>\<open>shutil.rmtree\<close> leaves the
  handler (the framework answers 500) after the id has left the queue and before the
  record is deleted.
\<close>

definition cancel_task :: "state \<Rightarrow> tid \<Rightarrow> (tid \<Rightarrow> bool) \<Rightarrow> (api_error + unit) \<times> state" where
  "cancel_task s k rm_fails =
     (case map_of (tasks s) k of
        None \<Rightarrow> (Inl NotFound, s)
      | Some _ \<Rightarrow>
          let s1 = (if k \<in> set (queue s) then s\<lparr>queue := remove1 k (queue s)\<rparr> else s)
          in if k \<in> dirs s1 then
               if rm_fails k then (Inl InternalError, s1)
               else (Inr (), s1\<lparr>dirs := dirs s1 - {k}, tasks := AList.delete k (tasks s1)\<rparr>)
             else (Inr (), s1\<lparr>tasks := AList.delete k (tasks s1)\<rparr>))"

section \<open>Reachable states\<close>

text \<open>
  The event loop runs one piece of code at a time, from one suspension to the next, so
  a step of the system is one of: a request handled by \<^verbatim>\<open>create_download_task\<close>, with an
  id that is in use nowhere; a scheduled \<^verbatim>\<open>download_video\<close> coroutine running from its
  start to its suspension; a suspended one running from the Fetcher's answer to its end;
  a request handled by \<^verbatim>\<open>cancel_task\<close>; a cycle of the reaper.
\<close>

definition fresh_id :: "state \<Rightarrow> tid \<Rightarrow> bool" where
  "fresh_id s k =
     (k \<notin> fst ` set (tasks s) \<and> k \<notin> set (queue s) \<and> k \<notin> fst ` set (spawned s)
      \<and> k \<notin> fst ` set (running s))"

inductive reachable :: "state \<Rightarrow> bool" where
  r_init: "reachable init_state"
| r_submit: "reachable s \<Longrightarrow> fresh_id s new_id \<Longrightarrow>
     reachable (snd (create_download_task s new_id now u q))"
| r_start: "reachable s \<Longrightarrow> (k, u, q) \<in> set (spawned s) \<Longrightarrow>
     reachable (download_video_start (s\<lparr>spawned := remove1 (k, u, q) (spawned s)\<rparr>) k u q mkdir_error)"
| r_resume: "reachable s \<Longrightarrow> (k, u, q) \<in> set (running s) \<Longrightarrow>
     reachable (download_video_resume (s\<lparr>running := remove1 (k, u, q) (running s)\<rparr>) k u q
       outcome files now)"
| r_cancel: "reachable s \<Longrightarrow> reachable (snd (cancel_task s k rm_fails))"
| r_cleanup: "reachable s \<Longrightarrow> reachable (cleanup_cycle s now rm_fails)"

definition processing_tasks :: "state \<Rightarrow> tid list" where
  "processing_tasks s = map fst (filter (\<lambda>kt. status (snd kt) = Processing) (tasks s))"

section \<open>Example inputs\<close>

text \<open>A file system on which \<^verbatim>\<open>shutil.rmtree\<close> never raises.\<close>

definition example_rm_ok :: "tid \<Rightarrow> bool" where
  "example_rm_ok k = False"

text \<open>A file system on which \<^verbatim>\<open>shutil.rmtree\<close> raises on the directory of task \<open>a\<close>.\<close>

definition example_rm_fails_a :: "tid \<Rightarrow> bool" where
  "example_rm_fails_a k = (k = ''a'')"

text \<open>
  Two tasks \<open>a\<close> and \<open>b\<close>, both completed at time 0, with their directories; in the second
  state \<open>b\<close> was stored before \<open>a\<close>. At \<open>example_late\<close> both are older than the retention
  window.
\<close>

definition example_done :: "tid \<Rightarrow> task" where
  "example_done k = (new_task k ''u'' 720 0)\<lparr>status := Completed, completed_at := Some 0\<rparr>"

definition example_done_ab :: state where
  "example_done_ab =
     init_state\<lparr>tasks := [(''a'', example_done ''a''), (''b'', example_done ''b'')],
       dirs := {''a'', ''b''}\<rparr>"

definition example_done_ba :: state where
  "example_done_ba =
     init_state\<lparr>tasks := [(''b'', example_done ''b''), (''a'', example_done ''a'')],
       dirs := {''a'', ''b''}\<rparr>"

definition example_late :: time where
  "example_late = 7200000001"

section \<open>The formatters\<close>

declare str_nat.simps [simp del]












section \<open>The store and the scheduler: what each operation leaves alone\<close>

lemma set_task_frame [simp]:
  "queue (set_task k f s) = queue s"
  "processing_task_id (set_task k f s) = processing_task_id s"
  "spawned (set_task k f s) = spawned s"
  "running (set_task k f s) = running s"
  "dirs (set_task k f s) = dirs s"
  by (simp_all add: set_task_def)


lemma keys_set_task [simp]: "fst ` set (tasks (set_task k f s)) = fst ` set (tasks s)"
  by (simp add: set_task_def dom_map_entry)

lemma pniq_frame [simp]:
  "tasks (process_next_in_queue s) = tasks s"
  "processing_task_id (process_next_in_queue s) = processing_task_id s"
  "running (process_next_in_queue s) = running s"
  "dirs (process_next_in_queue s) = dirs s"
  by (auto simp: process_next_in_queue_def Let_def split: option.splits)

lemma finally_frame [simp]:
  "tasks (download_video_finally s) = tasks s"
  "processing_task_id (download_video_finally s) = None"
  "running (download_video_finally s) = running s"
  "dirs (download_video_finally s) = dirs s"
  by (simp_all add: download_video_finally_def)

lemma on_exception_frame [simp]:
  "queue (on_exception k msg s) = queue s"
  "processing_task_id (on_exception k msg s) = processing_task_id s"
  "spawned (on_exception k msg s) = spawned s"
  "running (on_exception k msg s) = running s"
  "dirs (on_exception k msg s) = dirs s"
  by (simp_all add: on_exception_def)


section \<open>Platform detection: substrings and the unknown platform\<close>



lemma lower_char_idem: "lower_char (lower_char c) = lower_char c"
  by (simp add: lower_char_def)

lemma lower_idem: "lower (lower u) = lower u"
  by (simp add: lower_def lower_char_idem)




section \<open>Advance\<close>

lemma pniq_idle:
  assumes "processing_task_id s = None" and "queue s = k # rest"
  shows "queue (process_next_in_queue s) = rest"
    and "spawned (process_next_in_queue s) =
      (case map_of (tasks s) k of
         Some t \<Rightarrow> if status t = Queued then spawned s @ [(k, url t, quality t)] else spawned s
       | None \<Rightarrow> spawned s)"
  using assms by (auto simp: process_next_in_queue_def Let_def split: option.splits)





section \<open>Submit\<close>

lemma create_full:
  "MAX_QUEUE_SIZE \<le> length (queue s) \<Longrightarrow> create_download_task s k now u q = (Inl QueueFull, s)"
  by (simp add: create_download_task_def)

lemma create_ok:
  assumes "length (queue s) < MAX_QUEUE_SIZE"
  shows "fst (create_download_task s k now u q) = Inr (k, length (queue s) + 1)"
    and "tasks (snd (create_download_task s k now u q)) = AList.update k (new_task k u q now) (tasks s)"
    and "processing_task_id s \<noteq> None \<Longrightarrow> queue (snd (create_download_task s k now u q)) = queue s @ [k]"
    and "processing_task_id s = None \<Longrightarrow> queue (snd (create_download_task s k now u q)) = tl (queue s @ [k])"
  using assms
  by (auto simp: create_download_task_def Let_def process_next_in_queue_def split: option.splits)

text \<open>
  Claim C4, as the code has it. \<^verbatim>\<open>create_download_task\<close> answers \<^verbatim>\<open>QueueFull\<close> exactly when
  the queue holds \<open>MAX_QUEUE_SIZE = 5\<close> ids or more, and then changes nothing. Otherwise
  it stores a new task in status \<^verbatim>\<open>queued\<close> with progress 0, leaves the other tasks
  alone, and reports the position \<open>length + 1\<close>. The queue it leaves is the old one with
  the id appended when a task is marked as processing; when none is, the call runs
  \<^verbatim>\<open>process_next_in_queue\<close> at once, which pops the head, so the queue is as long as
  before.
\<close>

theorem create_download_task_admission:
  "(fst (create_download_task s k now u q) = Inl QueueFull \<longleftrightarrow> MAX_QUEUE_SIZE \<le> length (queue s))
   \<and> (MAX_QUEUE_SIZE \<le> length (queue s) \<longrightarrow> snd (create_download_task s k now u q) = s)
   \<and> (length (queue s) < MAX_QUEUE_SIZE \<longrightarrow>
        fst (create_download_task s k now u q) = Inr (k, length (queue s) + 1)
        \<and> map_of (tasks (snd (create_download_task s k now u q))) k = Some (new_task k u q now)
        \<and> status (new_task k u q now) = Queued \<and> progress (new_task k u q now) = 0
        \<and> (\<forall>j. j \<noteq> k \<longrightarrow>
              map_of (tasks (snd (create_download_task s k now u q))) j = map_of (tasks s) j)
        \<and> (processing_task_id s \<noteq> None \<longrightarrow>
              queue (snd (create_download_task s k now u q)) = queue s @ [k])
        \<and> (processing_task_id s = None \<longrightarrow>
              queue (snd (create_download_task s k now u q)) = tl (queue s @ [k])
              \<and> length (queue (snd (create_download_task s k now u q))) = length (queue s)))
   \<and> MAX_QUEUE_SIZE = 5"
proof (cases "MAX_QUEUE_SIZE \<le> length (queue s)")
  case True
  then show ?thesis by (simp add: create_full MAX_QUEUE_SIZE_def)
next
  case False
  then have lt: "length (queue s) < MAX_QUEUE_SIZE" by simp
  have st: "status (new_task k u q now) = Queued" "progress (new_task k u q now) = 0"
    by (simp_all add: new_task_def)
  from lt show ?thesis
    by (simp add: create_ok st update_conv' MAX_QUEUE_SIZE_def)
qed

theorem create_download_task_admission_witness:
  "fst (create_download_task (init_state\<lparr>processing_task_id := Some ''p'', queue := [''b'']\<rparr>)
          ''a'' 0 ''u'' 720) = Inr (''a'', 2)
   \<and> queue (snd (create_download_task (init_state\<lparr>processing_task_id := Some ''p'', queue := [''b'']\<rparr>)
          ''a'' 0 ''u'' 720)) = [''b'', ''a'']
   \<and> create_download_task
        (init_state\<lparr>queue := [''b'', ''c'', ''d'', ''e'', ''f'']\<rparr>) ''a'' 0 ''u'' 720
      = (Inl QueueFull, init_state\<lparr>queue := [''b'', ''c'', ''d'', ''e'', ''f'']\<rparr>)"
proof -
  let ?s = "init_state\<lparr>processing_task_id := Some ''p'', queue := [''b'']\<rparr>"
  let ?f = "init_state\<lparr>queue := [''b'', ''c'', ''d'', ''e'', ''f'']\<rparr>"
  have h: "length (queue ?s) < MAX_QUEUE_SIZE" "processing_task_id ?s \<noteq> None"
    by (simp_all add: init_state_def MAX_QUEUE_SIZE_def)
  from create_download_task_admission[of ?s "''a''" 0 "''u''" 720] h
  have "fst (create_download_task ?s ''a'' 0 ''u'' 720) = Inr (''a'', length (queue ?s) + 1)"
    "queue (snd (create_download_task ?s ''a'' 0 ''u'' 720)) = queue ?s @ [''a'']"
    by blast+
  then have a: "fst (create_download_task ?s ''a'' 0 ''u'' 720) = Inr (''a'', 2)"
    "queue (snd (create_download_task ?s ''a'' 0 ''u'' 720)) = [''b'', ''a'']"
    by (simp_all add: init_state_def)
  have g: "MAX_QUEUE_SIZE \<le> length (queue ?f)" by (simp add: init_state_def MAX_QUEUE_SIZE_def)
  from create_download_task_admission[of ?f "''a''" 0 "''u''" 720] g
  have "fst (create_download_task ?f ''a'' 0 ''u'' 720) = Inl QueueFull"
    "snd (create_download_task ?f ''a'' 0 ''u'' 720) = ?f"
    by blast+
  then have b: "create_download_task ?f ''a'' 0 ''u'' 720 = (Inl QueueFull, ?f)"
    by (simp add: prod_eq_iff)
  from a b show ?thesis by blast
qed

text \<open>
  Claim C4 as stated fails on an idle scheduler: the submission succeeds and the queue
  is no longer than before (the new id has been popped again).
\<close>

theorem submit_idle_counterexample:
  "fst (create_download_task init_state ''a'' 0 ''https://youtu.be/x'' 720) = Inr (''a'', 1)
   \<and> length (queue (snd (create_download_task init_state ''a'' 0 ''https://youtu.be/x'' 720)))
       \<noteq> length (queue init_state) + 1
   \<and> queue (snd (create_download_task init_state ''a'' 0 ''https://youtu.be/x'' 720)) = []"
  by (simp add: create_download_task_def process_next_in_queue_def init_state_def new_task_def
      Let_def MAX_QUEUE_SIZE_def)

section \<open>Cancellation\<close>

lemma cancel_ok:
  assumes "map_of (tasks s) k = Some t" and "k \<in> dirs s \<longrightarrow> \<not> rm_fails k"
  shows "fst (cancel_task s k rm_fails) = Inr ()"
    and "queue (snd (cancel_task s k rm_fails)) = remove1 k (queue s)"
    and "dirs (snd (cancel_task s k rm_fails)) = dirs s - {k}"
    and "tasks (snd (cancel_task s k rm_fails)) = AList.delete k (tasks s)"
    and "processing_task_id (snd (cancel_task s k rm_fails)) = processing_task_id s"
    and "spawned (snd (cancel_task s k rm_fails)) = spawned s"
    and "running (snd (cancel_task s k rm_fails)) = running s"
  using assms by (auto simp: cancel_task_def Let_def remove1_idem)

lemma cancel_not_found:
  "map_of (tasks s) k = None \<Longrightarrow> cancel_task s k rm_fails = (Inl NotFound, s)"
  by (simp add: cancel_task_def)

lemma cancel_rm_fails:
  assumes "map_of (tasks s) k = Some t" and "k \<in> dirs s" and "rm_fails k"
  shows "fst (cancel_task s k rm_fails) = Inl InternalError"
    and "snd (cancel_task s k rm_fails) = s\<lparr>queue := remove1 k (queue s)\<rparr>"
  using assms by (auto simp: cancel_task_def Let_def remove1_idem)



section \<open>Status\<close>

lemma list_index_mem:
  "k \<in> set q \<Longrightarrow> \<exists>i. list_index q k = Some i \<and> i < length q \<and> q ! i = k \<and> k \<notin> set (take i q)"
proof (induction q)
  case Nil
  then show ?case by simp
next
  case (Cons y ys)
  show ?case
  proof (cases "y = k")
    case True
    then show ?thesis by simp
  next
    case False
    with Cons.prems have "k \<in> set ys" by simp
    from Cons.IH[OF this] obtain i where
      i: "list_index ys k = Some i" "i < length ys" "ys ! i = k" "k \<notin> set (take i ys)" by blast
    with False have "list_index (y # ys) k = Some (Suc i) \<and> Suc i < length (y # ys)
        \<and> (y # ys) ! Suc i = k \<and> k \<notin> set (take (Suc i) (y # ys))"
      by auto
    then show ?thesis by blast
  qed
qed

lemma list_index_remove1:
  "k \<noteq> j \<Longrightarrow> k \<notin> set pre \<Longrightarrow>
   list_index (pre @ j # post) k = map_option Suc (list_index (remove1 j (pre @ j # post)) k)"
proof (induction pre)
  case Nil
  then show ?case by simp
next
  case (Cons x pre)
  then show ?case by (cases "x = j") (auto simp: option.map_comp)
qed

lemma status_queued_in_queue:
  assumes "map_of (tasks s) k = Some t" and "status t = Queued" and "k \<in> set (queue s)"
  shows "\<exists>r. get_task_status s k = Inr r
           \<and> queue_position r = map_option Suc (list_index (queue s) k)"
  using assms by (simp add: get_task_status_def)

lemma status_not_in_queue:
  assumes "map_of (tasks s) k = Some t" and "k \<notin> set (queue s)"
  shows "\<exists>r. get_task_status s k = Inr r \<and> resp_status r = status t \<and> queue_position r = None"
  using assms by (simp add: get_task_status_def)

section \<open>The reported queue position\<close>

lemma cancel_success:
  assumes "fst (cancel_task s j rm_fails) = Inr ()"
  shows "\<exists>t. map_of (tasks s) j = Some t \<and> (j \<in> dirs s \<longrightarrow> \<not> rm_fails j)"
  using assms by (auto simp: cancel_task_def Let_def split: option.splits if_splits)

lemma position_first:
  assumes "map_of (tasks s) k = Some t" and "status t = Queued" and "k \<in> set (queue s)"
  shows "\<exists>r p. get_task_status s k = Inr r \<and> queue_position r = Some p \<and> 1 \<le> p
           \<and> p \<le> length (queue s) \<and> queue s ! (p - 1) = k \<and> k \<notin> set (take (p - 1) (queue s))"
proof -
  from list_index_mem[OF assms(3)] obtain i where
    i: "list_index (queue s) k = Some i" "i < length (queue s)" "queue s ! i = k"
       "k \<notin> set (take i (queue s))" by blast
  from status_queued_in_queue[OF assms] i(1) obtain r where
    r: "get_task_status s k = Inr r" "queue_position r = Some (Suc i)" by auto
  from i r have "get_task_status s k = Inr r \<and> queue_position r = Some (Suc i) \<and> 1 \<le> Suc i
           \<and> Suc i \<le> length (queue s) \<and> queue s ! (Suc i - 1) = k
           \<and> k \<notin> set (take (Suc i - 1) (queue s))" by simp
  then show ?thesis by blast
qed

lemma position_after_pop:
  assumes "map_of (tasks s) k = Some t" and "status t = Queued"
    and "processing_task_id s = None" and "queue s = h # rest" and "k \<noteq> h" and "k \<in> set rest"
  shows "\<exists>r r' p. get_task_status s k = Inr r
           \<and> get_task_status (process_next_in_queue s) k = Inr r'
           \<and> queue_position r = Some (Suc p) \<and> queue_position r' = Some p"
proof -
  from list_index_mem[OF assms(6)] obtain i where i: "list_index rest k = Some i" by blast
  with assms(4,5) have b: "list_index (queue s) k = Some (Suc i)" by simp
  have q: "queue (process_next_in_queue s) = rest" using assms(3,4) by (rule pniq_idle(1))
  from assms(4,6) have m: "k \<in> set (queue s)" by simp
  from status_queued_in_queue[OF assms(1,2) m] b obtain r where
    r: "get_task_status s k = Inr r" "queue_position r = Some (Suc (Suc i))" by auto
  have "map_of (tasks (process_next_in_queue s)) k = Some t" using assms(1) by simp
  moreover have "k \<in> set (queue (process_next_in_queue s))" using q assms(6) by simp
  ultimately obtain r' where
    r': "get_task_status (process_next_in_queue s) k = Inr r'"
        "queue_position r' = map_option Suc (list_index (queue (process_next_in_queue s)) k)"
    using status_queued_in_queue[of "process_next_in_queue s" k t] assms(2) by blast
  with q i have "queue_position r' = Some (Suc i)" by simp
  with r r'(1) show ?thesis by blast
qed

lemma position_after_cancel:
  assumes "map_of (tasks s) k = Some t" and "status t = Queued"
    and "queue s = pre @ j # post" and "k \<notin> set pre" and "k \<noteq> j" and "k \<in> set post"
    and "fst (cancel_task s j rm_fails) = Inr ()"
  shows "\<exists>r r' p. get_task_status s k = Inr r
           \<and> get_task_status (snd (cancel_task s j rm_fails)) k = Inr r'
           \<and> queue_position r = Some (Suc p) \<and> queue_position r' = Some p"
proof -
  let ?s' = "snd (cancel_task s j rm_fails)"
  from cancel_success[OF assms(7)] obtain tj where
    tj: "map_of (tasks s) j = Some tj" "j \<in> dirs s \<longrightarrow> \<not> rm_fails j" by blast
  have q': "queue ?s' = remove1 j (queue s)" and t': "tasks ?s' = AList.delete j (tasks s)"
    using cancel_ok[of s j tj rm_fails] tj by simp_all
  from assms(3,6) have m: "k \<in> set (queue s)" by simp
  with assms(5) have m': "k \<in> set (queue ?s')" by (simp add: q')
  from list_index_mem[OF m'] obtain i where i: "list_index (queue ?s') k = Some i" by blast
  from list_index_remove1[OF assms(5,4), of post] assms(3) q' i
  have b: "list_index (queue s) k = Some (Suc i)" by simp
  from status_queued_in_queue[OF assms(1,2) m] b obtain r where
    r: "get_task_status s k = Inr r" "queue_position r = Some (Suc (Suc i))" by auto
  have "map_of (tasks ?s') k = Some t" using assms(1,5) by (simp add: t')
  from status_queued_in_queue[OF this assms(2) m'] i obtain r' where
    "get_task_status ?s' k = Inr r'" "queue_position r' = Some (Suc i)" by auto
  with r show ?thesis by blast
qed

text \<open>
  Claim C8, as the code has it. For a task in status \<^verbatim>\<open>queued\<close> whose id is in the queue,
  \<^verbatim>\<open>get_task_status\<close> reports \<^verbatim>\<open>queue_position\<close>, the 1-based index of the id's first
  occurrence in the queue. A task whose id is not in the queue is reported without
  \<^verbatim>\<open>queue_position\<close>, whatever its status. The position of a task that stays in the queue
  goes down by exactly one when \<^verbatim>\<open>process_next_in_queue\<close> pops the head, and when an id
  before it is removed by a successful \<^verbatim>\<open>cancel_task\<close>.
\<close>

theorem queue_position_reported:
  "(map_of (tasks s) k = Some t \<and> status t = Queued \<and> k \<in> set (queue s) \<longrightarrow>
      (\<exists>r p. get_task_status s k = Inr r \<and> queue_position r = Some p \<and> 1 \<le> p
           \<and> p \<le> length (queue s) \<and> queue s ! (p - 1) = k \<and> k \<notin> set (take (p - 1) (queue s))))
   \<and> (map_of (tasks s) k = Some t \<and> k \<notin> set (queue s) \<longrightarrow>
      (\<exists>r. get_task_status s k = Inr r \<and> resp_status r = status t \<and> queue_position r = None))
   \<and> (map_of (tasks s) k = Some t \<and> status t = Queued \<and> processing_task_id s = None
        \<and> queue s = h # rest \<and> k \<noteq> h \<and> k \<in> set rest \<longrightarrow>
      (\<exists>r r' p. get_task_status s k = Inr r
           \<and> get_task_status (process_next_in_queue s) k = Inr r'
           \<and> queue_position r = Some (Suc p) \<and> queue_position r' = Some p))
   \<and> (map_of (tasks s) k = Some t \<and> status t = Queued \<and> queue s = pre @ j # post
        \<and> k \<notin> set pre \<and> k \<noteq> j \<and> k \<in> set post \<and> fst (cancel_task s j rm_fails) = Inr () \<longrightarrow>
      (\<exists>r r' p. get_task_status s k = Inr r
           \<and> get_task_status (snd (cancel_task s j rm_fails)) k = Inr r'
           \<and> queue_position r = Some (Suc p) \<and> queue_position r' = Some p))"
  using position_first[of s k t] status_not_in_queue[of s k t]
    position_after_pop[of s k t h rest] position_after_cancel[of s k t pre j post rm_fails]
  by blast

theorem queue_position_reported_witness:
  "queue_position (projr (get_task_status
      (init_state\<lparr>tasks := [(''a'', new_task ''a'' ''u'' 720 0), (''b'', new_task ''b'' ''v'' 480 1)],
         queue := [''a'', ''b''], processing_task_id := Some ''p''\<rparr>) ''b'')) = Some 2"
proof -
  let ?t = "new_task ''b'' ''v'' 480 1"
  let ?s = "init_state\<lparr>tasks := [(''a'', new_task ''a'' ''u'' 720 0), (''b'', ?t)],
         queue := [''a'', ''b''], processing_task_id := Some ''p''\<rparr>"
  have h: "map_of (tasks ?s) ''b'' = Some ?t \<and> status ?t = Queued \<and> ''b'' \<in> set (queue ?s)"
    by (simp add: new_task_def)
  from queue_position_reported[of ?s "''b''" ?t] h
  obtain r p where r: "get_task_status ?s ''b'' = Inr r" "queue_position r = Some p" "1 \<le> p"
    "p \<le> length (queue ?s)" "queue ?s ! (p - 1) = ''b''"
    by blast
  from r(3,4) have "p = 1 \<or> p = 2" by auto
  with r(5) have "p = 2" by auto
  with r(1,2) show ?thesis by simp
qed

lemma fresh_init: "fresh_id init_state k"
  by (simp add: fresh_id_def init_state_def)

text \<open>
  Claim C8 as stated fails for a task that is queued and no longer in the queue: on an
  idle scheduler the submitted task is popped at once, and until its coroutine starts it
  is in status \<^verbatim>\<open>queued\<close> and reported without \<^verbatim>\<open>queue_position\<close>.
\<close>

theorem queued_without_position_counterexample:
  "reachable (snd (create_download_task init_state ''a'' 0 ''https://youtu.be/x'' 720))
   \<and> get_task_status (snd (create_download_task init_state ''a'' 0 ''https://youtu.be/x'' 720)) ''a''
       = Inr \<lparr>resp_task_id = ''a'', resp_status = Queued, resp_progress = 0,
              queue_position = None, resp_video_info = None, resp_error = None\<rparr>"
proof -
  have "reachable (snd (create_download_task init_state ''a'' 0 ''https://youtu.be/x'' 720))"
    by (rule r_submit[OF r_init fresh_init])
  moreover have "get_task_status (snd (create_download_task init_state ''a'' 0 ''https://youtu.be/x'' 720)) ''a''
       = Inr \<lparr>resp_task_id = ''a'', resp_status = Queued, resp_progress = 0,
              queue_position = None, resp_video_info = None, resp_error = None\<rparr>"
    by (simp add: get_task_status_def create_download_task_def process_next_in_queue_def
        init_state_def new_task_def Let_def MAX_QUEUE_SIZE_def)
  ultimately show ?thesis by blast
qed

section \<open>The reaper\<close>

lemma cleanup_scan_Cons:
  "cleanup_scan rm_fails now ((k, t) # rest) ds acc =
     (if expired now t then
        if k \<in> ds then
          if rm_fails k then (ds, None)
          else cleanup_scan rm_fails now rest (ds - {k}) (acc @ [k])
        else cleanup_scan rm_fails now rest ds (acc @ [k])
      else cleanup_scan rm_fails now rest ds acc)"
  by (simp add: expired_def split: option.splits)

declare cleanup_scan.simps(2) [simp del]

lemma cleanup_scan_all:
  assumes "\<forall>jt \<in> set al. expired now (snd jt) \<and> fst jt \<in> ds \<longrightarrow> \<not> rm_fails (fst jt)"
  shows "cleanup_scan rm_fails now al ds acc =
     (ds - {j. \<exists>tj. (j, tj) \<in> set al \<and> expired now tj},
      Some (acc @ map fst (filter (\<lambda>jt. expired now (snd jt)) al)))"
  using assms
proof (induction al arbitrary: ds acc)
  case Nil
  show ?case by simp
next
  case (Cons kt rest)
  obtain k t where kt: "kt = (k, t)" by (cases kt)
  show ?case
  proof (cases "expired now t")
    case False
    from Cons.prems have "\<forall>jt \<in> set rest. expired now (snd jt) \<and> fst jt \<in> ds \<longrightarrow> \<not> rm_fails (fst jt)"
      by simp
    from Cons.IH[OF this, of acc] False kt show ?thesis
      by (auto simp: cleanup_scan_Cons)
  next
    case True
    show ?thesis
    proof (cases "k \<in> ds")
      case in_ds: True
      with Cons.prems kt True have nf: "\<not> rm_fails k" by simp
      from Cons.prems
      have "\<forall>jt \<in> set rest. expired now (snd jt) \<and> fst jt \<in> ds - {k} \<longrightarrow> \<not> rm_fails (fst jt)"
        by simp
      from Cons.IH[OF this, of "acc @ [k]"] kt in_ds nf True show ?thesis
        by (auto simp: cleanup_scan_Cons)
    next
      case not_in: False
      from Cons.prems
      have "\<forall>jt \<in> set rest. expired now (snd jt) \<and> fst jt \<in> ds \<longrightarrow> \<not> rm_fails (fst jt)"
        by simp
      from Cons.IH[OF this, of "acc @ [k]"] kt not_in True show ?thesis
        by (auto simp: cleanup_scan_Cons)
    qed
  qed
qed

lemma cleanup_scan_abort:
  assumes "\<forall>jt \<in> set pre. expired now (snd jt) \<and> fst jt \<in> ds \<longrightarrow> \<not> rm_fails (fst jt)"
    and "expired now t" and "k \<in> ds" and "rm_fails k"
  shows "cleanup_scan rm_fails now (pre @ (k, t) # post) ds acc =
     (ds - {j. \<exists>tj. (j, tj) \<in> set pre \<and> expired now tj}, None)"
  using assms
proof (induction pre arbitrary: ds acc)
  case Nil
  then show ?case by (simp add: cleanup_scan_Cons)
next
  case (Cons jt pre)
  obtain j tj where jt: "jt = (j, tj)" by (cases jt)
  show ?case
  proof (cases "expired now tj")
    case False
    from Cons.prems have "\<forall>jt \<in> set pre. expired now (snd jt) \<and> fst jt \<in> ds \<longrightarrow> \<not> rm_fails (fst jt)"
      by simp
    from Cons.IH[OF this Cons.prems(2,3,4), of acc] False jt show ?thesis
      by (auto simp: cleanup_scan_Cons)
  next
    case True
    show ?thesis
    proof (cases "j \<in> ds")
      case in_ds: True
      with Cons.prems(1) jt True have nf: "\<not> rm_fails j" by simp
      with Cons.prems(4) have "j \<noteq> k" by auto
      with Cons.prems(3) have kin: "k \<in> ds - {j}" by simp
      from Cons.prems(1)
      have "\<forall>jt \<in> set pre. expired now (snd jt) \<and> fst jt \<in> ds - {j} \<longrightarrow> \<not> rm_fails (fst jt)"
        by simp
      from Cons.IH[OF this Cons.prems(2) kin Cons.prems(4), of "acc @ [j]"] jt in_ds nf True
      show ?thesis by (auto simp: cleanup_scan_Cons)
    next
      case not_in: False
      from Cons.prems(1)
      have "\<forall>jt \<in> set pre. expired now (snd jt) \<and> fst jt \<in> ds \<longrightarrow> \<not> rm_fails (fst jt)"
        by simp
      from Cons.IH[OF this Cons.prems(2,3,4), of "acc @ [j]"] jt not_in True
      show ?thesis by (auto simp: cleanup_scan_Cons)
    qed
  qed
qed

lemma map_of_foldl_delete:
  "map_of (foldl (\<lambda>al k. AList.delete k al) al ks) j = (if j \<in> set ks then None else map_of al j)"
  by (induction ks arbitrary: al) (auto simp: delete_conv')

lemma cleanup_cycle_abort:
  assumes "tasks s = pre @ (k, t) # post"
    and "\<forall>jt \<in> set pre. expired now (snd jt) \<and> fst jt \<in> dirs s \<longrightarrow> \<not> rm_fails (fst jt)"
    and "expired now t" and "k \<in> dirs s" and "rm_fails k"
  shows "cleanup_cycle s now rm_fails =
     s\<lparr>dirs := dirs s - {j. \<exists>tj. (j, tj) \<in> set pre \<and> expired now tj}\<rparr>"
  using cleanup_scan_abort[OF assms(2-5), of post "[]"] assms(1)
  by (simp add: cleanup_cycle_def)

lemma cleanup_cycle_all:
  assumes "\<forall>jt \<in> set (tasks s). expired now (snd jt) \<and> fst jt \<in> dirs s \<longrightarrow> \<not> rm_fails (fst jt)"
  shows "dirs (cleanup_cycle s now rm_fails)
           = dirs s - {j. \<exists>tj. (j, tj) \<in> set (tasks s) \<and> expired now tj}"
    and "map_of (tasks (cleanup_cycle s now rm_fails)) j =
           (if \<exists>tj. (j, tj) \<in> set (tasks s) \<and> expired now tj then None else map_of (tasks s) j)"
    and "queue (cleanup_cycle s now rm_fails) = queue s"
    and "processing_task_id (cleanup_cycle s now rm_fails) = processing_task_id s"
    and "spawned (cleanup_cycle s now rm_fails) = spawned s"
    and "running (cleanup_cycle s now rm_fails) = running s"
  using cleanup_scan_all[OF assms, of "[]"]
  by (auto simp: cleanup_cycle_def map_of_foldl_delete image_iff)

text \<open>
  Claim C5, as the code has it. The \<^verbatim>\<open>try\<close> block of \<^verbatim>\<open>cleanup_old_files\<close> holds the whole
  scan, so the first \<^verbatim>\<open>shutil.rmtree\<close> that raises ends the cycle: the tasks scanned
  before it have lost their directories, no record at all is removed, and the tasks
  after it are not looked at. When no \<^verbatim>\<open>rmtree\<close> raises, every task whose \<^verbatim>\<open>completed_at\<close>
  is older than the retention window loses its directory and its record, and nothing else
  changes.
\<close>

theorem cleanup_cycle_failure_ends_cycle:
  "(tasks s = pre @ (k, t) # post
      \<and> (\<forall>jt \<in> set pre. expired now (snd jt) \<and> fst jt \<in> dirs s \<longrightarrow> \<not> rm_fails (fst jt))
      \<and> expired now t \<and> k \<in> dirs s \<and> rm_fails k \<longrightarrow>
        cleanup_cycle s now rm_fails =
          s\<lparr>dirs := dirs s - {j. \<exists>tj. (j, tj) \<in> set pre \<and> expired now tj}\<rparr>)
   \<and> ((\<forall>jt \<in> set (tasks s). expired now (snd jt) \<and> fst jt \<in> dirs s \<longrightarrow> \<not> rm_fails (fst jt)) \<longrightarrow>
        dirs (cleanup_cycle s now rm_fails)
          = dirs s - {j. \<exists>tj. (j, tj) \<in> set (tasks s) \<and> expired now tj}
        \<and> (\<forall>j. map_of (tasks (cleanup_cycle s now rm_fails)) j =
              (if \<exists>tj. (j, tj) \<in> set (tasks s) \<and> expired now tj then None
               else map_of (tasks s) j))
        \<and> queue (cleanup_cycle s now rm_fails) = queue s
        \<and> processing_task_id (cleanup_cycle s now rm_fails) = processing_task_id s)"
  using cleanup_cycle_abort[of s pre k t post now rm_fails] cleanup_cycle_all[of s now rm_fails]
  by blast

lemma example_expired: "expired example_late (example_done k)"
  by (simp add: expired_def example_done_def example_late_def retention_def
      CLEANUP_AFTER_HOURS_def)

theorem cleanup_cycle_failure_ends_cycle_witness:
  "tasks (cleanup_cycle example_done_ba example_late example_rm_fails_a) = tasks example_done_ba
   \<and> dirs (cleanup_cycle example_done_ba example_late example_rm_fails_a) = {''a''}
   \<and> dirs (cleanup_cycle example_done_ab example_late example_rm_ok) = {}
   \<and> map_of (tasks (cleanup_cycle example_done_ab example_late example_rm_ok)) ''b'' = None"
proof -
  have h: "tasks example_done_ba = [(''b'', example_done ''b'')] @ (''a'', example_done ''a'') # []
      \<and> (\<forall>jt \<in> set [(''b'', example_done ''b'')].
            expired example_late (snd jt) \<and> fst jt \<in> dirs example_done_ba
              \<longrightarrow> \<not> example_rm_fails_a (fst jt))
      \<and> expired example_late (example_done ''a'') \<and> ''a'' \<in> dirs example_done_ba
      \<and> example_rm_fails_a ''a''"
    by (simp add: example_done_ba_def example_rm_fails_a_def example_expired)
  from cleanup_cycle_failure_ends_cycle[of example_done_ba "[(''b'', example_done ''b'')]" "''a''"
      "example_done ''a''" "[]" example_late example_rm_fails_a] h
  have e: "cleanup_cycle example_done_ba example_late example_rm_fails_a =
      example_done_ba\<lparr>dirs := dirs example_done_ba
         - {j. \<exists>tj. (j, tj) \<in> set [(''b'', example_done ''b'')] \<and> expired example_late tj}\<rparr>"
    by blast
  have a: "tasks (cleanup_cycle example_done_ba example_late example_rm_fails_a)
      = tasks example_done_ba"
    unfolding e by simp
  have b: "dirs (cleanup_cycle example_done_ba example_late example_rm_fails_a) = {''a''}"
    unfolding e by (auto simp: example_expired example_done_ba_def)
  have g: "\<forall>jt \<in> set (tasks example_done_ab).
      expired example_late (snd jt) \<and> fst jt \<in> dirs example_done_ab \<longrightarrow> \<not> example_rm_ok (fst jt)"
    by (simp add: example_rm_ok_def)
  from cleanup_cycle_failure_ends_cycle[of example_done_ab _ _ _ _ example_late example_rm_ok] g
  have d: "dirs (cleanup_cycle example_done_ab example_late example_rm_ok)
      = dirs example_done_ab - {j. \<exists>tj. (j, tj) \<in> set (tasks example_done_ab) \<and> expired example_late tj}"
    and l: "map_of (tasks (cleanup_cycle example_done_ab example_late example_rm_ok)) ''b'' =
       (if \<exists>tj. (''b'', tj) \<in> set (tasks example_done_ab) \<and> expired example_late tj then None
        else map_of (tasks example_done_ab) ''b'')"
    by blast+
  have c: "dirs (cleanup_cycle example_done_ab example_late example_rm_ok) = {}"
    unfolding d by (auto simp: example_done_ab_def example_expired)
  have f: "map_of (tasks (cleanup_cycle example_done_ab example_late example_rm_ok)) ''b'' = None"
    unfolding l by (auto simp: example_done_ab_def example_expired)
  from a b c f show ?thesis by blast
qed

text \<open>
  Claim C5 as stated fails. With \<open>a\<close> stored before \<open>b\<close>, both older than the retention
  window, and \<^verbatim>\<open>rmtree\<close> raising on the directory of \<open>a\<close>: after the cycle \<open>b\<close> still has its
  record and its directory. With \<open>b\<close> stored first the directory of \<open>b\<close> is removed and its
  record stays.
\<close>

theorem cleanup_failure_counterexample:
  "expired example_late (example_done ''b'')
   \<and> map_of (tasks (cleanup_cycle example_done_ab example_late example_rm_fails_a)) ''b''
       = Some (example_done ''b'')
   \<and> ''b'' \<in> dirs (cleanup_cycle example_done_ab example_late example_rm_fails_a)
   \<and> map_of (tasks (cleanup_cycle example_done_ba example_late example_rm_fails_a)) ''b''
       = Some (example_done ''b'')"
proof -
  have "cleanup_cycle example_done_ab example_late example_rm_fails_a = example_done_ab"
    using cleanup_cycle_abort[of example_done_ab "[]" "''a''" "example_done ''a''"
        "[(''b'', example_done ''b'')]" example_late example_rm_fails_a]
    by (simp add: example_done_ab_def example_rm_fails_a_def example_expired)
  moreover have "tasks (cleanup_cycle example_done_ba example_late example_rm_fails_a)
      = tasks example_done_ba"
    using cleanup_cycle_abort[of example_done_ba "[(''b'', example_done ''b'')]" "''a''"
        "example_done ''a''" "[]" example_late example_rm_fails_a]
    by (simp add: example_done_ba_def example_rm_fails_a_def example_expired)
  ultimately show ?thesis
    by (simp add: example_expired example_done_ab_def example_done_ba_def)
qed

end
